theory Spec2Isabelle
  imports Main
begin

section \<open>Python string primitives used by the auditor\<close>

text \<open>
  A Python \<open>str\<close> is modelled as a \<open>string\<close>, one \<open>char\<close> per code point, which covers
  the code points below 256. The backslash cannot be written inside a string literal, so
  it is the character \<open>bsl\<close>.
\<close>

abbreviation bsl :: char where
  "bsl \<equiv> CHR 0x5C"

text \<open>\<open>s.startswith(p)\<close>.\<close>

fun startswith :: "'a list \<Rightarrow> 'a list \<Rightarrow> bool" where
  "startswith s [] = True"
| "startswith [] (p # ps) = False"
| "startswith (c # cs) (p # ps) = (c = p \<and> startswith cs ps)"

text \<open>\<open>sub in s\<close>.\<close>

fun py_in :: "'a list \<Rightarrow> 'a list \<Rightarrow> bool" where
  "py_in sub [] = (sub = [])"
| "py_in sub (c # cs) = (startswith (c # cs) sub \<or> py_in sub cs)"

text \<open>\<open>s[a:b]\<close> for offsets \<open>0 \<le> a\<close> and \<open>0 \<le> b\<close>: empty when \<open>b \<le> a\<close>.\<close>

definition slice :: "'a list \<Rightarrow> nat \<Rightarrow> nat \<Rightarrow> 'a list" where
  "slice s a b = take (b - a) (drop a s)"

text \<open>
  \<open>s.replace(old, new)\<close>, \<open>s.count(sub)\<close> and \<open>s.split(sep)\<close>: occurrences are taken
  from the left and do not overlap. The source calls them with a non-empty pattern
  only, and the equations below are those of Python for such a pattern.
\<close>

function str_replace :: "'a list \<Rightarrow> 'a list \<Rightarrow> 'a list \<Rightarrow> 'a list" where
  "str_replace [] old new = []"
| "str_replace (c # cs) old new =
     (if old \<noteq> [] \<and> startswith (c # cs) old
      then new @ str_replace (drop (length old) (c # cs)) old new
      else c # str_replace cs old new)"
  by pat_completeness auto
termination
  by (relation "measure (\<lambda>(s, old, new). length s)") auto

function str_count :: "'a list \<Rightarrow> 'a list \<Rightarrow> nat" where
  "str_count [] sub = 0"
| "str_count (c # cs) sub =
     (if sub \<noteq> [] \<and> startswith (c # cs) sub
      then Suc (str_count (drop (length sub) (c # cs)) sub)
      else str_count cs sub)"
  by pat_completeness auto
termination
  by (relation "measure (\<lambda>(s, sub). length s)") auto

function str_split :: "'a list \<Rightarrow> 'a list \<Rightarrow> 'a list list" where
  "str_split [] sep = [[]]"
| "str_split (c # cs) sep =
     (if sep \<noteq> [] \<and> startswith (c # cs) sep
      then [] # str_split (drop (length sep) (c # cs)) sep
      else (case str_split cs sep of [] \<Rightarrow> [[c]] | h # t \<Rightarrow> (c # h) # t))"
  by pat_completeness auto
termination
  by (relation "measure (\<lambda>(s, sep). length s)") auto

text \<open>
  \<open>str.isspace\<close> on one character, for code points below 256: tab, line feed, vertical
  tab, form feed, carriage return, the separators 28 to 31, space, NEL (133) and the
  no-break space (160).
\<close>

definition isspace :: "char \<Rightarrow> bool" where
  "isspace c = ((of_char c :: nat) \<in> {9, 10, 11, 12, 13, 28, 29, 30, 31, 32, 133, 160})"

text \<open>\<open>s.strip()\<close>.\<close>

definition strip :: "string \<Rightarrow> string" where
  "strip s = rev (dropWhile isspace (rev (dropWhile isspace s)))"

text \<open>
  \<open>s.splitlines()\<close>: the line boundaries below code point 256 are line feed, carriage
  return, carriage return followed by line feed (one boundary), vertical tab, form feed,
  the separators 28 to 30 and NEL (133). A final boundary opens no further line.
\<close>

definition linebreak :: "char \<Rightarrow> bool" where
  "linebreak c = ((of_char c :: nat) \<in> {10, 11, 12, 13, 28, 29, 30, 133})"

fun splitlines :: "string \<Rightarrow> string list" where
  "splitlines [] = []"
| "splitlines (c # cs) =
     (if linebreak c
      then [] # splitlines (if c = CHR 0x0D \<and> startswith cs [CHR 0x0A] then tl cs else cs)
      else (case splitlines cs of [] \<Rightarrow> [[c]] | h # t \<Rightarrow> (c # h) # t))"

text \<open>\<open>str(n)\<close> for an integer, and \<open>str(xs)\<close> for a list of integers (\<open>[1, 2]\<close>).\<close>

definition digit :: "nat \<Rightarrow> char" where
  "digit d = char_of (48 + d)"

function str_nat :: "nat \<Rightarrow> string" where
  "str_nat n = (if n < 10 then [digit n] else str_nat (n div 10) @ [digit (n mod 10)])"
  by pat_completeness auto
termination
  by (relation "measure id") auto

declare str_nat.simps [simp del]

definition str_int :: "int \<Rightarrow> string" where
  "str_int i = (if i < 0 then CHR ''-'' # str_nat (nat (- i)) else str_nat (nat i))"

fun join :: "string \<Rightarrow> string list \<Rightarrow> string" where
  "join sep [] = []"
| "join sep [x] = x"
| "join sep (x # y # ys) = x @ sep @ join sep (y # ys)"

definition str_int_list :: "int list \<Rightarrow> string" where
  "str_int_list xs = ''['' @ join '', '' (map str_int xs) @ '']''"

text \<open>\<open>if v:\<close> and \<open>a or b\<close> on an optional integer: \<open>None\<close> and \<open>0\<close> are false.\<close>

definition truthy :: "int option \<Rightarrow> bool" where
  "truthy v = (case v of None \<Rightarrow> False | Some n \<Rightarrow> n \<noteq> 0)"

definition py_or :: "int option \<Rightarrow> int option \<Rightarrow> int option" where
  "py_or a b = (if truthy a then a else b)"


section \<open>The two regular expressions\<close>

definition BEGIN_TABULAR :: string where
  "BEGIN_TABULAR = bsl # ''begin{tabular}''"

definition END_TABULAR :: string where
  "END_TABULAR = bsl # ''end{tabular}''"

text \<open>
  \<open>{([^}]*)}\<close> at the head of \<open>s\<close>: the group and what follows the match. The star is
  greedy and stops before the first closing brace; giving characters back never helps,
  since the character then met is not a closing brace.
\<close>

definition match_braced :: "string \<Rightarrow> (string \<times> string) option" where
  "match_braced s =
     (case s of
        [] \<Rightarrow> None
      | c # r \<Rightarrow>
          if c \<noteq> CHR ''{'' then None
          else (case dropWhile (\<lambda>x. x \<noteq> CHR ''}'') r of
                  [] \<Rightarrow> None
                | _ # rest \<Rightarrow> Some (takeWhile (\<lambda>x. x \<noteq> CHR ''}'') r, rest)))"

text \<open>\<open>\[[^\]]*\]\<close> at the head of \<open>s\<close>: what follows the match.\<close>

definition match_bracketed :: "string \<Rightarrow> string option" where
  "match_bracketed s =
     (case s of
        [] \<Rightarrow> None
      | c # r \<Rightarrow>
          if c \<noteq> CHR ''['' then None
          else (case dropWhile (\<lambda>x. x \<noteq> CHR '']'') r of
                  [] \<Rightarrow> None
                | _ # rest \<Rightarrow> Some rest))"

text \<open>
  \<open>TABULAR_BEGIN_RE\<close> matched at the head of \<open>s\<close>: the length of the match and group 1.
  The optional bracketed argument is tried first and, when the rest fails after it, the
  match is tried again without it.
\<close>

definition TABULAR_BEGIN_RE_match :: "string \<Rightarrow> (nat \<times> string) option" where
  "TABULAR_BEGIN_RE_match s =
     (if \<not> startswith s BEGIN_TABULAR then None
      else
        let r = drop (length BEGIN_TABULAR) s;
            with_opt = (case match_bracketed r of None \<Rightarrow> None | Some r' \<Rightarrow> match_braced r');
            m = (case with_opt of Some x \<Rightarrow> Some x | None \<Rightarrow> match_braced r)
        in (case m of
              None \<Rightarrow> None
            | Some (g, rest) \<Rightarrow> Some (length s - length rest, g)))"

text \<open>
  \<open>TABULAR_BEGIN_RE.search\<close> on the text from offset \<open>i\<close> on, \<open>s\<close> being the text there:
  start offset, end offset and group 1 of the leftmost match. The pattern matches no
  empty text, so the attempt at the end of the text is the failure of the first equation.
\<close>

fun TABULAR_BEGIN_RE_search :: "nat \<Rightarrow> string \<Rightarrow> (nat \<times> nat \<times> string) option" where
  "TABULAR_BEGIN_RE_search i [] = None"
| "TABULAR_BEGIN_RE_search i (c # cs) =
     (case TABULAR_BEGIN_RE_match (c # cs) of
        Some (n, g) \<Rightarrow> Some (i, i + n, g)
      | None \<Rightarrow> TABULAR_BEGIN_RE_search (Suc i) cs)"

text \<open>
  \<open>TABULAR_TOKEN_RE.finditer(latex_code, pos)\<close>, \<open>s\<close> being the text from offset \<open>i\<close> on:
  group 1 and start offset of each match, the scan resuming after a match.
\<close>

function TABULAR_TOKEN_RE_finditer :: "nat \<Rightarrow> string \<Rightarrow> (string \<times> nat) list" where
  "TABULAR_TOKEN_RE_finditer i [] = []"
| "TABULAR_TOKEN_RE_finditer i (c # cs) =
     (if startswith (c # cs) BEGIN_TABULAR
      then (''begin'', i) #
             TABULAR_TOKEN_RE_finditer (i + length BEGIN_TABULAR) (drop (length BEGIN_TABULAR) (c # cs))
      else if startswith (c # cs) END_TABULAR
      then (''end'', i) #
             TABULAR_TOKEN_RE_finditer (i + length END_TABULAR) (drop (length END_TABULAR) (c # cs))
      else TABULAR_TOKEN_RE_finditer (Suc i) cs)"
  by pat_completeness auto
termination
  by (relation "measure (\<lambda>(i, s). length s)") (auto simp: BEGIN_TABULAR_def END_TABULAR_def)


section \<open>The auditor\<close>

record TabularBlock =
  column_spec :: string
  body :: string

text \<open>
  The loop over the tokens in \<open>_extract_outer_tabular\<close>: \<open>depth\<close> is the counter, the
  result is \<open>end_idx\<close>, set at the first end token that brings the depth to 0.
\<close>

fun scan_tokens :: "int \<Rightarrow> (string \<times> nat) list \<Rightarrow> nat option" where
  "scan_tokens depth [] = None"
| "scan_tokens depth ((g, start) # ts) =
     (if g = ''begin'' then scan_tokens (depth + 1) ts
      else if depth - 1 = 0 then Some start
      else scan_tokens (depth - 1) ts)"

definition extract_outer_tabular :: "string \<Rightarrow> TabularBlock option" where
  "extract_outer_tabular latex_code =
     (case TABULAR_BEGIN_RE_search 0 latex_code of
        None \<Rightarrow> None
      | Some (begin_start, begin_end, g) \<Rightarrow>
          (case scan_tokens 0 (TABULAR_TOKEN_RE_finditer begin_start (drop begin_start latex_code)) of
             None \<Rightarrow> None
           | Some end_idx \<Rightarrow>
               Some \<lparr>column_spec = g, body = slice latex_code begin_end end_idx\<rparr>))"

text \<open>
  The \<open>re.sub\<close> of \<open>_count_columns_from_spec\<close>, whose pattern is an at sign followed
  by \<open>{[^}]*}\<close>: every match, from the left, is removed and the scan resumes after it.
\<close>

definition match_at_braced :: "string \<Rightarrow> string option" where
  "match_at_braced s =
     (case s of
        [] \<Rightarrow> None
      | c # r \<Rightarrow>
          if c \<noteq> CHR ''@'' then None
          else (case match_braced r of None \<Rightarrow> None | Some (g, rest) \<Rightarrow> Some rest))"

lemma match_braced_shorter: "match_braced s = Some (g, rest) \<Longrightarrow> length rest < length s"
proof -
  assume m: "match_braced s = Some (g, rest)"
  then obtain r where s: "s = CHR ''{'' # r"
    by (cases s) (auto simp: match_braced_def split: if_splits)
  from m s obtain x where d: "dropWhile (\<lambda>x. x \<noteq> CHR ''}'') r = x # rest"
    by (auto simp: match_braced_def split: list.splits)
  have "length (dropWhile (\<lambda>x. x \<noteq> CHR ''}'') r) \<le> length r"
    by (rule length_dropWhile_le)
  with d s show ?thesis by simp
qed

lemma match_at_braced_shorter: "match_at_braced s = Some rest \<Longrightarrow> length rest < length s"
  by (cases s) (auto simp: match_at_braced_def split: if_splits option.splits
                     dest: match_braced_shorter)

function remove_at_braced :: "string \<Rightarrow> string" where
  "remove_at_braced [] = []"
| "remove_at_braced (c # cs) =
     (case match_at_braced (c # cs) of
        Some rest \<Rightarrow> remove_at_braced rest
      | None \<Rightarrow> c # remove_at_braced cs)"
  by pat_completeness auto
termination
  by (relation "measure length") (auto dest: match_at_braced_shorter)

text \<open>
  \<open>re.findall(r"[lcrpmbXS]", cleaned, re.IGNORECASE)\<close>: below code point 256 the
  class matches the eight letters in both cases.
\<close>

definition column_token :: "char \<Rightarrow> bool" where
  "column_token c = (c \<in> set ''lcrpmbxsLCRPMBXS'')"

definition count_columns_from_spec :: "string \<Rightarrow> int option" where
  "count_columns_from_spec spec =
     (let cleaned = remove_at_braced spec;
          cleaned = str_replace cleaned ''|'' [];
          tokens = filter column_token cleaned
      in if length tokens = 0 then None else Some (int (length tokens)))"

text \<open>
  The loop of \<open>_find_column_mismatches\<close> over the rows, with its two variables
  \<open>data_row_index\<close> and \<open>mismatched_rows\<close>.
\<close>

fun scan_rows :: "string list \<Rightarrow> int \<Rightarrow> int \<Rightarrow> int list \<Rightarrow> int list" where
  "scan_rows [] expected_cols data_row_index mismatched_rows = mismatched_rows"
| "scan_rows (row # rows) expected_cols data_row_index mismatched_rows =
     (if startswith row [bsl] \<or> py_in ''toprule'' row \<or> py_in ''midrule'' row
         \<or> py_in ''bottomrule'' row
      then scan_rows rows expected_cols data_row_index mismatched_rows
      else if py_in (bsl # ''begin{tabular'') row \<or> py_in (bsl # ''end{tabular'') row
      then scan_rows rows expected_cols data_row_index mismatched_rows
      else
        let data_row_index = data_row_index + 1;
            sanitized = str_replace row [bsl, CHR ''&''] [];
            col_count = int (str_count sanitized ''&'') + 1
        in scan_rows rows expected_cols data_row_index
             (if col_count \<noteq> expected_cols then mismatched_rows @ [data_row_index]
              else mismatched_rows))"

definition find_column_mismatches :: "TabularBlock \<Rightarrow> int \<Rightarrow> int list" where
  "find_column_mismatches tabular_block expected_cols =
     (let rows = map strip (filter (\<lambda>row. strip row \<noteq> [])
                              (str_split (body tabular_block) [bsl, bsl]))
      in scan_rows rows expected_cols 0 [])"

definition count_columns_in_line :: "string option \<Rightarrow> int option" where
  "count_columns_in_line line =
     (case line of
        None \<Rightarrow> None
      | Some l \<Rightarrow>
          if l = [] then None
          else
            let sanitized = str_replace l [bsl, CHR ''&''] []
            in if \<not> py_in ''&'' sanitized then None
               else Some (int (str_count sanitized ''&'') + 1))"

text \<open>
  \<open>next((line for line in latex_code.splitlines() if "&" in line and not
  line.strip().startswith("%")), None)\<close>.
\<close>

definition first_line_with_amp :: "string \<Rightarrow> string option" where
  "first_line_with_amp latex_code =
     List.find (\<lambda>line. py_in ''&'' line \<and> \<not> startswith (strip line) ''%'')
       (splitlines latex_code)"


subsection \<open>The report\<close>

record report =
  has_caption :: bool
  has_label :: bool
  has_centering :: bool
  uses_full_booktabs :: bool
  column_mismatch_rows :: "int list"
  expected_columns :: "int option"
  needs_tabular_scaffold :: bool
  placeholder_headers :: "string list"
  issues :: "string list"
  suggestions :: "string list"

text \<open>The texts of the issues and of the suggestions, in the order of the checks.\<close>

definition issue_caption :: string where
  "issue_caption = ''Caption missing.''"

definition suggestion_caption :: string where
  "suggestion_caption = ''Add a descriptive caption so readers understand the table.''"

definition issue_label :: string where
  "issue_label = ''Label missing.''"

definition suggestion_label :: string where
  "suggestion_label = ''Add a label for cross-referencing.''"

definition issue_centering :: string where
  "issue_centering = ''Table is not centered.''"

definition suggestion_centering :: string where
  "suggestion_centering = ''Include '' @ bsl # ''centering inside the table environment.''"

definition issue_booktabs :: string where
  "issue_booktabs = ''Booktabs rules are incomplete.''"

definition suggestion_booktabs :: string where
  "suggestion_booktabs =
     ''Use '' @ bsl # ''toprule, '' @ bsl # ''midrule, and '' @ bsl
       # ''bottomrule for consistent styling.''"

definition issue_mismatch :: "int list \<Rightarrow> string" where
  "issue_mismatch rows = ''Column count mismatch on data rows: '' @ str_int_list rows @ ''.''"

definition suggestion_mismatch :: string where
  "suggestion_mismatch = ''Ensure each row has the same number of cells as the column spec.''"

definition issue_scaffold :: string where
  "issue_scaffold = ''Tabular environment missing.''"

definition suggestion_scaffold :: string where
  "suggestion_scaffold =
     ''Wrap the rows in '' @ bsl # ''begin{tabular}{...} ... '' @ bsl
       # ''end{tabular} with a proper column spec.''"

definition issue_header :: string where
  "issue_header = ''Header row missing or not emphasized.''"

definition suggestion_header :: string where
  "suggestion_header = ''Add a bold header row so each column has a descriptive name.''"

text \<open>
  \<open>[f"Column {i+1}" for i in range(max(1, col_count_for_headers))]\<close>; the range of a
  count below 1 never arises, \<open>max\<close> giving at least 1.
\<close>

definition make_placeholder_headers :: "int \<Rightarrow> string list" where
  "make_placeholder_headers col_count_for_headers =
     map (\<lambda>i. ''Column '' @ str_int (int i + 1)) [0 ..< nat (max 1 col_count_for_headers)]"

text \<open>
  \<open>audit_latex_table\<close>. Each \<open>let\<close> is one statement or one \<open>if\<close> of the source, on
  the variables it assigns; the printing of the results is left out. None of the
  operations used raises on a string, so the function returns its report directly.
\<close>

definition audit_latex_table :: "string \<Rightarrow> report" where
  "audit_latex_table latex_code =
     (let has_caption = py_in (bsl # ''caption'') latex_code;
          has_label = py_in (bsl # ''label'') latex_code;
          has_centering = py_in (bsl # ''centering'') latex_code;
          uses_toprule = py_in (bsl # ''toprule'') latex_code;
          uses_midrule = py_in (bsl # ''midrule'') latex_code;
          uses_bottomrule = py_in (bsl # ''bottomrule'') latex_code;
          has_bold_header = py_in (bsl # ''textbf'') latex_code;
          issues = [];
          suggestions = [];
          placeholder_headers = [];
          needs_tabular_scaffold = False;
          (issues, suggestions) =
            (if \<not> has_caption
             then (issues @ [issue_caption], suggestions @ [suggestion_caption])
             else (issues, suggestions));
          (issues, suggestions) =
            (if \<not> has_label
             then (issues @ [issue_label], suggestions @ [suggestion_label])
             else (issues, suggestions));
          (issues, suggestions) =
            (if \<not> has_centering
             then (issues @ [issue_centering], suggestions @ [suggestion_centering])
             else (issues, suggestions));
          (issues, suggestions) =
            (if \<not> (uses_toprule \<and> uses_midrule \<and> uses_bottomrule)
             then (issues @ [issue_booktabs], suggestions @ [suggestion_booktabs])
             else (issues, suggestions));
          tabular_block = extract_outer_tabular latex_code;
          column_mismatch_rows = [];
          expected_cols = None;
          (expected_cols, column_mismatch_rows, needs_tabular_scaffold, issues, suggestions) =
            (case tabular_block of
               Some tb \<Rightarrow>
                 let expected_cols = count_columns_from_spec (column_spec tb)
                 in (case expected_cols of
                       None \<Rightarrow>
                         (expected_cols, column_mismatch_rows, needs_tabular_scaffold,
                          issues, suggestions)
                     | Some n \<Rightarrow>
                         if n = 0
                         then (expected_cols, column_mismatch_rows, needs_tabular_scaffold,
                               issues, suggestions)
                         else
                           let column_mismatch_rows = find_column_mismatches tb n
                           in if column_mismatch_rows \<noteq> []
                              then (expected_cols, column_mismatch_rows, needs_tabular_scaffold,
                                    issues @ [issue_mismatch column_mismatch_rows],
                                    suggestions @ [suggestion_mismatch])
                              else (expected_cols, column_mismatch_rows, needs_tabular_scaffold,
                                    issues, suggestions))
             | None \<Rightarrow>
                 (expected_cols, column_mismatch_rows, True,
                  issues @ [issue_scaffold], suggestions @ [suggestion_scaffold]));
          (inferred_cols, expected_cols) =
            (if truthy expected_cols then (expected_cols, expected_cols)
             else
               let inferred_cols = count_columns_in_line (first_line_with_amp latex_code)
               in if inferred_cols \<noteq> None then (inferred_cols, inferred_cols)
                  else (inferred_cols, expected_cols));
          (issues, suggestions, placeholder_headers) =
            (if \<not> has_bold_header
             then
               let col_count_for_headers =
                     (case py_or (py_or expected_cols inferred_cols) (Some 3) of
                        Some k \<Rightarrow> k | None \<Rightarrow> 3)
               in (issues @ [issue_header], suggestions @ [suggestion_header],
                   make_placeholder_headers col_count_for_headers)
             else (issues, suggestions, placeholder_headers))
      in \<lparr>has_caption = has_caption,
          has_label = has_label,
          has_centering = has_centering,
          uses_full_booktabs = (uses_toprule \<and> uses_midrule \<and> uses_bottomrule),
          column_mismatch_rows = column_mismatch_rows,
          expected_columns = expected_cols,
          needs_tabular_scaffold = needs_tabular_scaffold,
          placeholder_headers = placeholder_headers,
          issues = issues,
          suggestions = suggestions\<rparr>)"


section \<open>Notions used to state the properties\<close>

text \<open>
  The expected column count resolved from extraction: the count of the column
  specification of the extracted region, when there is a region.
\<close>

definition extracted_columns :: "string \<Rightarrow> int option" where
  "extracted_columns latex_code =
     (case extract_outer_tabular latex_code of
        None \<Rightarrow> None
      | Some tb \<Rightarrow> count_columns_from_spec (column_spec tb))"

text \<open>
  The mismatched rows found on the extracted region, when there is a region and its
  column specification gives a count.
\<close>

definition extracted_mismatches :: "string \<Rightarrow> int list" where
  "extracted_mismatches latex_code =
     (case extract_outer_tabular latex_code of
        None \<Rightarrow> []
      | Some tb \<Rightarrow>
          (case count_columns_from_spec (column_spec tb) of
             None \<Rightarrow> []
           | Some n \<Rightarrow> if n = 0 then [] else find_column_mismatches tb n))"

text \<open>
  The number of findings of an audit: one per failed presence check, one for a missing
  region or for mismatched rows, one for a missing bold header.
\<close>

definition findings :: "string \<Rightarrow> nat" where
  "findings s =
     of_bool (\<not> py_in (bsl # ''caption'') s) + of_bool (\<not> py_in (bsl # ''label'') s)
     + of_bool (\<not> py_in (bsl # ''centering'') s)
     + of_bool (\<not> (py_in (bsl # ''toprule'') s \<and> py_in (bsl # ''midrule'') s
                    \<and> py_in (bsl # ''bottomrule'') s))
     + of_bool (extract_outer_tabular s = None \<or> extracted_mismatches s \<noteq> [])
     + of_bool (\<not> py_in (bsl # ''textbf'') s)"

text \<open>
  The cell separators of a line that are not escaped: the separators, minus those that
  directly follow a backslash.
\<close>

definition unescaped_separators :: "string \<Rightarrow> nat" where
  "unescaped_separators line = str_count line ''&'' - str_count line [bsl, CHR ''&'']"

text \<open>
  The nesting depth after a sequence of tokens: begin tokens minus end tokens.
\<close>

fun depth_after :: "(string \<times> nat) list \<Rightarrow> int" where
  "depth_after [] = 0"
| "depth_after ((g, start) # ts) = (if g = ''begin'' then 1 else - 1) + depth_after ts"

text \<open>
  A report is well formed when it has one suggestion per issue, its mismatched rows
  are 1-based indices, and it names mismatched rows only together with an expected
  column count and never together with the scaffold flag.
\<close>

definition well_formed :: "report \<Rightarrow> bool" where
  "well_formed r =
     (length (issues r) = length (suggestions r)
      \<and> list_all (\<lambda>i. 1 \<le> i) (column_mismatch_rows r)
      \<and> (column_mismatch_rows r = [] \<or> expected_columns r \<noteq> None)
      \<and> (column_mismatch_rows r = [] \<or> \<not> needs_tabular_scaffold r))"

text \<open>
  The tokens that the depth-counting scan of \<open>_extract_outer_tabular\<close> runs over: those
  found from the start of the first match of \<open>TABULAR_BEGIN_RE\<close> on, none when there is
  no match.
\<close>

definition tabular_tokens :: "string \<Rightarrow> (string \<times> nat) list" where
  "tabular_tokens latex_code =
     (case TABULAR_BEGIN_RE_search 0 latex_code of
        None \<Rightarrow> []
      | Some (begin_start, begin_end, g) \<Rightarrow>
          TABULAR_TOKEN_RE_finditer begin_start (drop begin_start latex_code))"

text \<open>No token of \<open>TABULAR_TOKEN_RE\<close> lies inside \<open>s\<close>.\<close>

definition token_free :: "string \<Rightarrow> bool" where
  "token_free s = (\<not> py_in BEGIN_TABULAR s \<and> \<not> py_in END_TABULAR s)"


section \<open>Facts about the string primitives\<close>

lemma str_count_single: "str_count s [c] = length (filter (\<lambda>x. x = c) s)"
  by (induction s) auto

lemma py_in_single: "py_in [c] s \<longleftrightarrow> c \<in> set s"
  by (induction s) auto

lemma str_count_escaped_simps:
  "str_count [] [bsl, CHR ''&''] = 0"
  "str_count [a] [bsl, CHR ''&''] = 0"
  "str_count (a # b # cs) [bsl, CHR ''&''] =
     (if a = bsl \<and> b = CHR ''&'' then Suc (str_count cs [bsl, CHR ''&''])
      else str_count (b # cs) [bsl, CHR ''&''])"
  by simp_all

lemma str_replace_escaped_simps:
  "str_replace [] [bsl, CHR ''&''] [] = []"
  "str_replace [a] [bsl, CHR ''&''] [] = [a]"
  "str_replace (a # b # cs) [bsl, CHR ''&''] [] =
     (if a = bsl \<and> b = CHR ''&'' then str_replace cs [bsl, CHR ''&''] []
      else a # str_replace (b # cs) [bsl, CHR ''&''] [])"
  by simp_all

lemma escaped_le_amps:
  "str_count s [bsl, CHR ''&''] \<le> length (filter (\<lambda>x. x = CHR ''&'') s)"
proof (induction s rule: induct_list012)
  case (3 a b cs)
  then show ?case
    by (simp only: str_count_escaped_simps) (auto split: if_splits)
qed simp_all

text \<open>
  Removing the escaped separators and counting the separators left gives the
  separators minus the escaped ones.
\<close>

lemma sanitized_count:
  "str_count (str_replace s [bsl, CHR ''&''] []) ''&'' = unescaped_separators s"
  unfolding unescaped_separators_def
proof (induction s rule: induct_list012)
  case 1
  then show ?case by simp
next
  case (2 a)
  then show ?case by simp
next
  case (3 a b cs)
  show ?case
  proof (cases "a = bsl \<and> b = CHR ''&''")
    case True
    then show ?thesis
      using 3(1) by (simp add: str_count_single)
  next
    case False
    have le: "str_count (b # cs) [bsl, CHR ''&'']
                \<le> length (filter (\<lambda>x. x = CHR ''&'') (b # cs))"
      by (rule escaped_le_amps)
    from False have r: "str_replace (a # b # cs) [bsl, CHR ''&''] []
                          = a # str_replace (b # cs) [bsl, CHR ''&''] []"
      by (simp only: str_replace_escaped_simps if_False)
    from False have c: "str_count (a # b # cs) [bsl, CHR ''&'']
                          = str_count (b # cs) [bsl, CHR ''&'']"
      by (simp only: str_count_escaped_simps if_False)
    define A where "A = length (filter (\<lambda>x. x = CHR ''&'') (b # cs))"
    define E where "E = str_count (b # cs) [bsl, CHR ''&'']"
    define R where "R = str_replace (b # cs) [bsl, CHR ''&''] []"
    have ih: "length (filter (\<lambda>x. x = CHR ''&'') R) = A - E"
      using 3(2) by (simp only: str_count_single A_def E_def R_def)
    have le': "E \<le> A"
      using le by (simp only: A_def E_def)
    have "length (filter (\<lambda>x. x = CHR ''&'') (a # R))
            = (if a = CHR ''&'' then 1 else 0) + (A - E)"
      using ih by simp
    also have "\<dots> = ((if a = CHR ''&'' then 1 else 0) + A) - E"
      using le' by simp
    also have "(if a = CHR ''&'' then 1 else 0) + A
                 = length (filter (\<lambda>x. x = CHR ''&'') (a # b # cs))"
      by (simp add: A_def)
    finally show ?thesis
      by (simp only: r c str_count_single R_def E_def)
  qed
qed


section \<open>The report, field by field\<close>

text \<open>
  The report of \<open>audit_latex_table\<close> written out: every field as a function of the
  text, the lists of issues and suggestions as the concatenation of what each check adds.
\<close>

lemma extraction_cases [case_names no_region no_count count]:
  obtains "extract_outer_tabular s = None"
  | tb where "extract_outer_tabular s = Some tb" "count_columns_from_spec (column_spec tb) = None"
  | tb n where "extract_outer_tabular s = Some tb" "count_columns_from_spec (column_spec tb) = Some n"
proof (cases "extract_outer_tabular s")
  case None
  then show ?thesis by (rule that(1))
next
  case (Some tb)
  show ?thesis
  proof (cases "count_columns_from_spec (column_spec tb)")
    case None
    with Some show ?thesis by (rule that(2))
  next
    case (Some n)
    with \<open>extract_outer_tabular s = Some tb\<close> show ?thesis by (rule that(3))
  qed
qed

lemma if_pair: "(if c then (a, b) else (a', b')) = (if c then a else a', if c then b else b')"
  by simp

lemma if_append: "(if c then xs @ ys else xs) = xs @ (if c then ys else [])"
  by simp

lemma audit_normal_form:
  "audit_latex_table s =
     \<lparr>has_caption = py_in (bsl # ''caption'') s,
      has_label = py_in (bsl # ''label'') s,
      has_centering = py_in (bsl # ''centering'') s,
      uses_full_booktabs =
        (py_in (bsl # ''toprule'') s \<and> py_in (bsl # ''midrule'') s
         \<and> py_in (bsl # ''bottomrule'') s),
      column_mismatch_rows = extracted_mismatches s,
      expected_columns =
        (if truthy (extracted_columns s) then extracted_columns s
         else (case count_columns_in_line (first_line_with_amp s) of
                 None \<Rightarrow> extracted_columns s
               | Some k \<Rightarrow> Some k)),
      needs_tabular_scaffold = (extract_outer_tabular s = None),
      placeholder_headers =
        (if \<not> py_in (bsl # ''textbf'') s
         then make_placeholder_headers
                (if truthy (extracted_columns s) then the (extracted_columns s)
                 else (case count_columns_in_line (first_line_with_amp s) of
                         None \<Rightarrow> 3
                       | Some k \<Rightarrow> if k = 0 then 3 else k))
         else []),
      issues =
        (if \<not> py_in (bsl # ''caption'') s then [issue_caption] else [])
        @ (if \<not> py_in (bsl # ''label'') s then [issue_label] else [])
        @ (if \<not> py_in (bsl # ''centering'') s then [issue_centering] else [])
        @ (if \<not> (py_in (bsl # ''toprule'') s \<and> py_in (bsl # ''midrule'') s
                  \<and> py_in (bsl # ''bottomrule'') s) then [issue_booktabs] else [])
        @ (if extract_outer_tabular s = None then [issue_scaffold]
           else if extracted_mismatches s \<noteq> []
           then [issue_mismatch (extracted_mismatches s)] else [])
        @ (if \<not> py_in (bsl # ''textbf'') s then [issue_header] else []),
      suggestions =
        (if \<not> py_in (bsl # ''caption'') s then [suggestion_caption] else [])
        @ (if \<not> py_in (bsl # ''label'') s then [suggestion_label] else [])
        @ (if \<not> py_in (bsl # ''centering'') s then [suggestion_centering] else [])
        @ (if \<not> (py_in (bsl # ''toprule'') s \<and> py_in (bsl # ''midrule'') s
                  \<and> py_in (bsl # ''bottomrule'') s) then [suggestion_booktabs] else [])
        @ (if extract_outer_tabular s = None then [suggestion_scaffold]
           else if extracted_mismatches s \<noteq> [] then [suggestion_mismatch] else [])
        @ (if \<not> py_in (bsl # ''textbf'') s then [suggestion_header] else [])\<rparr>"
proof -
  note defs = audit_latex_table_def extracted_mismatches_def extracted_columns_def
    Let_def truthy_def py_or_def if_pair if_append
  show ?thesis
  proof (cases s rule: extraction_cases)
    case no_region
    then show ?thesis
      by (cases "count_columns_in_line (first_line_with_amp s)"; simp add: defs)
  next
    case (no_count tb)
    then show ?thesis
      by (cases "count_columns_in_line (first_line_with_amp s)"; simp add: defs)
  next
    case (count tb n)
    then show ?thesis
      by (cases "count_columns_in_line (first_line_with_amp s)";
          cases "n = 0"; cases "find_column_mismatches tb n = []";
          simp add: defs)
  qed
qed

section \<open>Facts about the row scan\<close>

text \<open>
  The loop keeps the list of mismatched rows strictly increasing, positive and bounded
  by the row counter.
\<close>

lemma scan_rows_inv:
  "sorted_wrt (<) acc \<Longrightarrow> \<forall>x\<in>set acc. 0 < x \<and> x \<le> idx \<Longrightarrow> 0 \<le> idx \<Longrightarrow>
   sorted_wrt (<) (scan_rows rows e idx acc) \<and> (\<forall>x\<in>set (scan_rows rows e idx acc). 0 < x)"
proof (induction rows arbitrary: idx acc)
  case Nil
  then show ?case by simp
next
  case (Cons row rows)
  have step: "sorted_wrt (<) (acc @ [idx + 1])" "\<forall>x\<in>set (acc @ [idx + 1]). 0 < x \<and> x \<le> idx + 1"
    "\<forall>x\<in>set acc. 0 < x \<and> x \<le> idx + 1" "0 \<le> idx + 1"
    using Cons.prems by (auto simp: sorted_wrt_append)
  show ?case
    using Cons.IH[OF Cons.prems] Cons.IH[OF step(1,2,4)] Cons.IH[OF Cons.prems(1) step(3,4)]
    by (simp add: Let_def)
qed

lemma find_column_mismatches_inv:
  "sorted_wrt (<) (find_column_mismatches tb e) \<and> (\<forall>i\<in>set (find_column_mismatches tb e). 0 < i)"
  unfolding find_column_mismatches_def Let_def
  by (rule scan_rows_inv) simp_all

lemma extracted_mismatches_inv:
  "sorted_wrt (<) (extracted_mismatches s) \<and> (\<forall>i\<in>set (extracted_mismatches s). 0 < i)"
proof (cases s rule: extraction_cases)
  case no_region
  then show ?thesis by (simp add: extracted_mismatches_def)
next
  case (no_count tb)
  then show ?thesis by (simp add: extracted_mismatches_def)
next
  case (count tb n)
  then show ?thesis
    using find_column_mismatches_inv [of tb n] by (simp add: extracted_mismatches_def)
qed

lemma extracted_mismatches_columns:
  "extracted_columns s = None \<Longrightarrow> extracted_mismatches s = []"
  by (simp add: extracted_mismatches_def extracted_columns_def split: option.splits)

lemma extracted_mismatches_region:
  "extract_outer_tabular s = None \<Longrightarrow> extracted_mismatches s = []"
  by (simp add: extracted_mismatches_def)

lemma expected_columns_None:
  "expected_columns (audit_latex_table s) = None \<Longrightarrow> extracted_columns s = None"
  by (simp add: audit_normal_form truthy_def split: if_splits option.splits)





section \<open>Facts about the extraction, the fallback and the headers\<close>

text \<open>
  A text without the begin marker has no region. The lines of a text are made of its
  characters, so a text without separator has no line for the fallback; and the count
  the fallback gives, when it gives one, is at least 2.
\<close>

lemma match_needs_begin: "\<not> startswith s BEGIN_TABULAR \<Longrightarrow> TABULAR_BEGIN_RE_match s = None"
  by (simp add: TABULAR_BEGIN_RE_match_def)

lemma search_without_begin:
  "\<not> py_in BEGIN_TABULAR s \<Longrightarrow> TABULAR_BEGIN_RE_search i s = None"
proof (induction s arbitrary: i)
  case Nil
  then show ?case by simp
next
  case (Cons c cs)
  from Cons.prems have a: "\<not> startswith (c # cs) BEGIN_TABULAR" and b: "\<not> py_in BEGIN_TABULAR cs"
    by simp_all
  from a have "TABULAR_BEGIN_RE_match (c # cs) = None"
    by (rule match_needs_begin)
  with Cons.IH [OF b] show ?case by simp
qed

lemma extract_without_begin:
  "\<not> py_in BEGIN_TABULAR s \<Longrightarrow> extract_outer_tabular s = None"
  by (simp add: extract_outer_tabular_def search_without_begin)

lemma splitlines_chars: "l \<in> set (splitlines s) \<Longrightarrow> set l \<subseteq> set s"
proof (induction s arbitrary: l rule: splitlines.induct)
  case 1
  then show ?case by simp
next
  case (2 c cs)
  show ?case
  proof (cases "linebreak c")
    case True
    let ?rest = "if c = CHR 0x0D \<and> startswith cs [CHR 0x0A] then tl cs else cs"
    have sub: "set ?rest \<subseteq> set cs"
      by (cases cs) auto
    from True 2(3) have "l = [] \<or> l \<in> set (splitlines ?rest)"
      by simp
    then show ?thesis
    proof
      assume "l = []"
      then show ?thesis by simp
    next
      assume "l \<in> set (splitlines ?rest)"
      then have "set l \<subseteq> set ?rest"
        using 2(1) True by blast
      with sub show ?thesis by auto
    qed
  next
    case False
    show ?thesis
    proof (cases "splitlines cs")
      case Nil
      with False 2(3) show ?thesis by simp
    next
      case (Cons h t)
      with False 2(3) have "l = c # h \<or> l \<in> set t"
        by simp
      then show ?thesis
      proof
        assume l: "l = c # h"
        have "h \<in> set (splitlines cs)" using Cons by simp
        then have "set h \<subseteq> set cs" using 2(2) False by blast
        with l show ?thesis by auto
      next
        assume "l \<in> set t"
        then have "l \<in> set (splitlines cs)" using Cons by simp
        then have "set l \<subseteq> set cs" using 2(2) False by blast
        then show ?thesis by auto
      qed
    qed
  qed
qed

lemma first_line_with_amp_has_amp:
  "first_line_with_amp s = Some l \<Longrightarrow> CHR ''&'' \<in> set l \<and> l \<in> set (splitlines s)"
  unfolding first_line_with_amp_def
  by (auto simp: find_Some_iff py_in_single)

lemma no_amp_no_line: "CHR ''&'' \<notin> set s \<Longrightarrow> first_line_with_amp s = None"
proof (rule ccontr)
  assume n: "CHR ''&'' \<notin> set s" and "first_line_with_amp s \<noteq> None"
  then obtain l where "first_line_with_amp s = Some l" by auto
  then have "CHR ''&'' \<in> set l" "l \<in> set (splitlines s)"
    using first_line_with_amp_has_amp by blast+
  with splitlines_chars n show False by blast
qed

lemma count_columns_in_line_unescaped:
  "CHR ''&'' \<in> set l \<Longrightarrow>
   count_columns_in_line (Some l) =
     (if unescaped_separators l = 0 then None else Some (int (unescaped_separators l) + 1))"
proof -
  assume a: "CHR ''&'' \<in> set l"
  then have ne: "l \<noteq> []" by auto
  have "py_in ''&'' (str_replace l [bsl, CHR ''&''] []) \<longleftrightarrow>
        0 < str_count (str_replace l [bsl, CHR ''&''] []) ''&''"
    by (simp add: py_in_single str_count_single filter_empty_conv)
  then show ?thesis
    using ne by (simp add: count_columns_in_line_def Let_def sanitized_count)
qed

lemma count_columns_in_line_ge2:
  "count_columns_in_line (first_line_with_amp s) = Some k \<Longrightarrow> 2 \<le> k"
proof -
  assume a: "count_columns_in_line (first_line_with_amp s) = Some k"
  then obtain l where l: "first_line_with_amp s = Some l"
    by (cases "first_line_with_amp s") (auto simp: count_columns_in_line_def)
  then have "CHR ''&'' \<in> set l"
    using first_line_with_amp_has_amp by blast
  from count_columns_in_line_unescaped [OF this] a l show ?thesis
    by (auto split: if_splits)
qed

lemma upt_shift: "map (\<lambda>i. int i + 1) [0 ..< n] = [1 .. int n]"
proof (induction n)
  case 0
  then show ?case by simp
next
  case (Suc n)
  have "[1 .. int n + 1] = [1 .. int n] @ [int n + 1]"
    using upto_rec2 [of 1 "int n + 1"] by simp
  with Suc show ?case by (simp add: add.commute)
qed

lemma make_placeholder_headers_upto:
  "make_placeholder_headers k = map (\<lambda>n. ''Column '' @ str_int n) [1 .. max 1 k]"
proof -
  have "map (\<lambda>i. ''Column '' @ str_int (int i + 1)) [0 ..< nat (max 1 k)]
        = map (\<lambda>n. ''Column '' @ str_int n) (map (\<lambda>i. int i + 1) [0 ..< nat (max 1 k)])"
    by (simp add: comp_def)
  then show ?thesis
    by (simp add: make_placeholder_headers_def upt_shift)
qed

lemma make_placeholder_headers_length:
  "length (make_placeholder_headers k) = nat (max 1 k)"
  by (simp add: make_placeholder_headers_def)

lemma header_count:
  "(case py_or (py_or (if truthy e then e else (case c of None \<Rightarrow> e | Some k \<Rightarrow> Some k)) c) (Some 3)
    of Some k \<Rightarrow> k | None \<Rightarrow> 3)
   = (if truthy e then the e else (case c of None \<Rightarrow> 3 | Some k \<Rightarrow> if k = 0 then 3 else k))"
  by (cases e; cases c) (simp_all add: py_or_def truthy_def)

lemma well_formed_audit: "well_formed (audit_latex_table s)"
proof -
  have a: "length (issues (audit_latex_table s)) = length (suggestions (audit_latex_table s))"
    by (simp add: audit_normal_form)
  have m: "column_mismatch_rows (audit_latex_table s) = extracted_mismatches s"
    by (simp add: audit_normal_form)
  have b: "list_all (\<lambda>i. 1 \<le> i) (column_mismatch_rows (audit_latex_table s))"
    using extracted_mismatches_inv [of s] by (auto simp: m list_all_iff)
  have c: "column_mismatch_rows (audit_latex_table s) = []
           \<or> expected_columns (audit_latex_table s) \<noteq> None"
    using expected_columns_None [of s] extracted_mismatches_columns [of s] m by auto
  have d: "column_mismatch_rows (audit_latex_table s) = []
           \<or> \<not> needs_tabular_scaffold (audit_latex_table s)"
    using extracted_mismatches_region [of s] by (auto simp: audit_normal_form)
  from a b c d show ?thesis
    unfolding well_formed_def by blast
qed

section \<open>Facts about the two regular expressions\<close>

text \<open>
  Both tokens start with a backslash and contain no other, so a token cannot start in a
  piece of text and run over a backslash that follows the piece. A piece without tokens
  is therefore skipped by the token scan, and a piece without the begin marker by the
  search, when what follows starts with a backslash.
\<close>

lemma startswith_append: "startswith (p @ r) p"
  by (induction p) simp_all

lemma startswith_cut: "startswith (x @ bsl # y) q \<Longrightarrow> bsl \<notin> set q \<Longrightarrow> startswith x q"
proof (induction x arbitrary: q)
  case Nil
  then show ?case by (cases q) auto
next
  case (Cons c cs)
  then show ?case by (cases q) auto
qed

lemma startswith_before_bsl:
  assumes "startswith ((c # cs) @ bsl # y) p" and "bsl \<notin> set (tl p)"
  shows "startswith (c # cs) p"
proof (cases p)
  case Nil
  then show ?thesis by simp
next
  case (Cons a q)
  with assms have "c = a" "startswith (cs @ bsl # y) q" "bsl \<notin> set q"
    by simp_all
  then show ?thesis
    using startswith_cut Cons by simp
qed

lemma BEGIN_TABULAR_tl: "bsl \<notin> set (tl BEGIN_TABULAR)"
  by (simp add: BEGIN_TABULAR_def)

lemma END_TABULAR_tl: "bsl \<notin> set (tl END_TABULAR)"
  by (simp add: END_TABULAR_def)

lemma no_token_at:
  assumes "\<not> startswith (c # cs) p" and "bsl \<notin> set (tl p)" and "t = [] \<or> (\<exists>y. t = bsl # y)"
  shows "\<not> startswith (c # cs @ t) p"
proof
  assume a: "startswith (c # cs @ t) p"
  from assms(3) show False
  proof
    assume "t = []"
    with a assms(1) show False by simp
  next
    assume "\<exists>y. t = bsl # y"
    then obtain y where "t = bsl # y" ..
    with a have "startswith ((c # cs) @ bsl # y) p" by simp
    then have "startswith (c # cs) p"
      using assms(2) by (rule startswith_before_bsl)
    with assms(1) show False by simp
  qed
qed

lemma finditer_skip:
  assumes "token_free x" and "t = [] \<or> (\<exists>y. t = bsl # y)"
  shows "TABULAR_TOKEN_RE_finditer i (x @ t) = TABULAR_TOKEN_RE_finditer (i + length x) t"
  using assms(1)
proof (induction x arbitrary: i)
  case Nil
  then show ?case by simp
next
  case (Cons c cs)
  from Cons.prems have nb: "\<not> startswith (c # cs) BEGIN_TABULAR"
    and ne: "\<not> startswith (c # cs) END_TABULAR" and tf: "token_free cs"
    by (simp_all add: token_free_def)
  have b: "\<not> startswith (c # cs @ t) BEGIN_TABULAR"
    using nb BEGIN_TABULAR_tl assms(2) by (rule no_token_at)
  have e: "\<not> startswith (c # cs @ t) END_TABULAR"
    using ne END_TABULAR_tl assms(2) by (rule no_token_at)
  have "TABULAR_TOKEN_RE_finditer i ((c # cs) @ t) = TABULAR_TOKEN_RE_finditer (Suc i) (cs @ t)"
    using b e by simp
  also have "\<dots> = TABULAR_TOKEN_RE_finditer (Suc i + length cs) t"
    by (rule Cons.IH [OF tf])
  finally show ?case by simp
qed

lemma search_skip:
  assumes "\<not> py_in BEGIN_TABULAR x"
  shows "TABULAR_BEGIN_RE_search i (x @ bsl # y) = TABULAR_BEGIN_RE_search (i + length x) (bsl # y)"
  using assms
proof (induction x arbitrary: i)
  case Nil
  then show ?case by simp
next
  case (Cons c cs)
  from Cons.prems have nb: "\<not> startswith (c # cs) BEGIN_TABULAR" and r: "\<not> py_in BEGIN_TABULAR cs"
    by simp_all
  have "\<not> startswith (c # cs @ bsl # y) BEGIN_TABULAR"
    using nb BEGIN_TABULAR_tl by (rule no_token_at) simp
  then have "TABULAR_BEGIN_RE_match (c # cs @ bsl # y) = None"
    by (simp add: TABULAR_BEGIN_RE_match_def)
  then have "TABULAR_BEGIN_RE_search i ((c # cs) @ bsl # y) = TABULAR_BEGIN_RE_search (Suc i) (cs @ bsl # y)"
    by simp
  also have "\<dots> = TABULAR_BEGIN_RE_search (Suc i + length cs) (bsl # y)"
    by (rule Cons.IH [OF r])
  finally show ?case by simp
qed

lemma match_braced_spec:
  "CHR ''}'' \<notin> set spec \<Longrightarrow> match_braced (''{'' @ spec @ ''}'' @ rest) = Some (spec, rest)"
proof -
  assume a: "CHR ''}'' \<notin> set spec"
  have d: "dropWhile (\<lambda>x. x \<noteq> CHR ''}'') (spec @ CHR ''}'' # rest) = CHR ''}'' # rest"
    using a by (subst dropWhile_append2) auto
  have t: "takeWhile (\<lambda>x. x \<noteq> CHR ''}'') (spec @ CHR ''}'' # rest) = spec"
    using a by (subst takeWhile_append2) auto
  show ?thesis
    by (simp add: match_braced_def d t)
qed

lemma match_bracketed_arg:
  "CHR '']'' \<notin> set a \<Longrightarrow> match_bracketed (''['' @ a @ '']'' @ rest) = Some rest"
proof -
  assume a: "CHR '']'' \<notin> set a"
  have d: "dropWhile (\<lambda>x. x \<noteq> CHR '']'') (a @ CHR '']'' # rest) = CHR '']'' # rest"
    using a by (subst dropWhile_append2) auto
  show ?thesis
    by (simp add: match_bracketed_def d)
qed

lemma match_bracketed_brace: "match_bracketed (CHR ''{'' # r) = None"
  by (simp add: match_bracketed_def)

lemma match_header:
  assumes "opt = [] \<or> (\<exists>a. opt = ''['' @ a @ '']'' \<and> CHR '']'' \<notin> set a)"
    and "CHR ''}'' \<notin> set spec"
  shows "TABULAR_BEGIN_RE_match (BEGIN_TABULAR @ opt @ ''{'' @ spec @ ''}'' @ rest)
         = Some (length (BEGIN_TABULAR @ opt @ ''{'' @ spec @ ''}''), spec)"
proof -
  let ?s = "BEGIN_TABULAR @ opt @ ''{'' @ spec @ ''}'' @ rest"
  have s: "startswith ?s BEGIN_TABULAR" by (rule startswith_append)
  have r: "drop (length BEGIN_TABULAR) ?s = opt @ ''{'' @ spec @ ''}'' @ rest" by simp
  have m: "(case (case match_bracketed (opt @ ''{'' @ spec @ ''}'' @ rest) of
                   None \<Rightarrow> None | Some r' \<Rightarrow> match_braced r') of
              Some x \<Rightarrow> Some x
            | None \<Rightarrow> match_braced (opt @ ''{'' @ spec @ ''}'' @ rest)) = Some (spec, rest)"
    using assms(1)
  proof
    assume "opt = []"
    then show ?thesis
      using match_braced_spec [OF assms(2), of rest] match_bracketed_brace by simp
  next
    assume "\<exists>a. opt = ''['' @ a @ '']'' \<and> CHR '']'' \<notin> set a"
    then obtain a where o: "opt = ''['' @ a @ '']''" and a: "CHR '']'' \<notin> set a" by blast
    have "match_bracketed (opt @ ''{'' @ spec @ ''}'' @ rest) = Some (''{'' @ spec @ ''}'' @ rest)"
      using match_bracketed_arg [OF a, of "''{'' @ spec @ ''}'' @ rest"] o by simp
    then show ?thesis
      using match_braced_spec [OF assms(2), of rest] by simp
  qed
  show ?thesis
    unfolding TABULAR_BEGIN_RE_match_def Let_def r using s m by simp
qed

lemma BEGIN_TABULAR_bsl: "\<exists>y. BEGIN_TABULAR @ z = bsl # y"
  by (simp add: BEGIN_TABULAR_def)

lemma END_TABULAR_bsl: "\<exists>y. END_TABULAR @ z = bsl # y"
  by (simp add: END_TABULAR_def)

lemma finditer_begin:
  "TABULAR_TOKEN_RE_finditer i (BEGIN_TABULAR @ z)
   = (''begin'', i) # TABULAR_TOKEN_RE_finditer (i + length BEGIN_TABULAR) z"
proof -
  obtain y where y: "BEGIN_TABULAR @ z = bsl # y"
    using BEGIN_TABULAR_bsl by blast
  have s: "startswith (bsl # y) BEGIN_TABULAR"
    using startswith_append [of BEGIN_TABULAR z] y by simp
  have d: "drop (length BEGIN_TABULAR) (bsl # y) = z"
    using y [symmetric] by simp
  show ?thesis
    unfolding y using s d by simp
qed

lemma finditer_end:
  "TABULAR_TOKEN_RE_finditer i (END_TABULAR @ z)
   = (''end'', i) # TABULAR_TOKEN_RE_finditer (i + length END_TABULAR) z"
proof -
  obtain y where y: "END_TABULAR @ z = bsl # y"
    using END_TABULAR_bsl by blast
  have s: "startswith (bsl # y) END_TABULAR"
    using startswith_append [of END_TABULAR z] y by simp
  have "\<not> startswith (END_TABULAR @ z) BEGIN_TABULAR"
    by (simp add: BEGIN_TABULAR_def END_TABULAR_def)
  then have n: "\<not> startswith (bsl # y) BEGIN_TABULAR"
    unfolding y .
  have d: "drop (length END_TABULAR) (bsl # y) = z"
    using y [symmetric] by simp
  show ?thesis
    unfolding y using s n d by simp
qed

lemma search_at_header:
  assumes "\<not> py_in BEGIN_TABULAR pre"
    and "opt = [] \<or> (\<exists>a. opt = ''['' @ a @ '']'' \<and> CHR '']'' \<notin> set a)"
    and "CHR ''}'' \<notin> set spec"
  shows "TABULAR_BEGIN_RE_search 0 (pre @ BEGIN_TABULAR @ opt @ ''{'' @ spec @ ''}'' @ rest)
         = Some (length pre, length pre + length (BEGIN_TABULAR @ opt @ ''{'' @ spec @ ''}''), spec)"
proof -
  obtain y where y: "BEGIN_TABULAR @ opt @ ''{'' @ spec @ ''}'' @ rest = bsl # y"
    using BEGIN_TABULAR_bsl by blast
  have m: "TABULAR_BEGIN_RE_match (bsl # y)
           = Some (length (BEGIN_TABULAR @ opt @ ''{'' @ spec @ ''}''), spec)"
    using match_header [OF assms(2,3), of rest] y by simp
  have "TABULAR_BEGIN_RE_search 0 (pre @ bsl # y) = TABULAR_BEGIN_RE_search (0 + length pre) (bsl # y)"
    using assms(1) by (rule search_skip)
  also have "\<dots> = Some (length pre, length pre + length (BEGIN_TABULAR @ opt @ ''{'' @ spec @ ''}''), spec)"
    using m by simp
  finally show ?thesis
    using y by simp
qed

lemma tokens_of_nested:
  assumes "token_free h" and "token_free m2" and "token_free m3"
  shows "TABULAR_TOKEN_RE_finditer p
           (BEGIN_TABULAR @ h @ BEGIN_TABULAR @ m2 @ END_TABULAR @ m3 @ END_TABULAR @ post)
         = (''begin'', p)
           # (''begin'', p + length BEGIN_TABULAR + length h)
           # (''end'', p + length BEGIN_TABULAR + length h + length BEGIN_TABULAR + length m2)
           # (''end'', p + length BEGIN_TABULAR + length h + length BEGIN_TABULAR + length m2
                        + length END_TABULAR + length m3)
           # TABULAR_TOKEN_RE_finditer
               (p + length BEGIN_TABULAR + length h + length BEGIN_TABULAR + length m2
                  + length END_TABULAR + length m3 + length END_TABULAR) post"
proof -
  have b: "t = [] \<or> (\<exists>y. t = bsl # y)" if "t = BEGIN_TABULAR @ z" for t z
    using that BEGIN_TABULAR_bsl by blast
  have e: "t = [] \<or> (\<exists>y. t = bsl # y)" if "t = END_TABULAR @ z" for t z
    using that END_TABULAR_bsl by blast
  have 1: "TABULAR_TOKEN_RE_finditer i (h @ BEGIN_TABULAR @ z)
           = TABULAR_TOKEN_RE_finditer (i + length h) (BEGIN_TABULAR @ z)" for i z
    using assms(1) b by (rule finditer_skip) simp
  have 2: "TABULAR_TOKEN_RE_finditer i (m2 @ END_TABULAR @ z)
           = TABULAR_TOKEN_RE_finditer (i + length m2) (END_TABULAR @ z)" for i z
    using assms(2) e by (rule finditer_skip) simp
  have 3: "TABULAR_TOKEN_RE_finditer i (m3 @ END_TABULAR @ z)
           = TABULAR_TOKEN_RE_finditer (i + length m3) (END_TABULAR @ z)" for i z
    using assms(3) e by (rule finditer_skip) simp
  show ?thesis
    by (simp only: finditer_begin finditer_end 1 2 3)
qed

lemma scan_tokens_nested:
  "scan_tokens 0 ((''begin'', p0) # (''begin'', p1) # (''end'', p2) # (''end'', p3) # ts) = Some p3"
  by simp

lemma slice_middle: "slice (a @ b @ c) (length a) (length a + length b) = b"
  by (simp add: slice_def)

lemma extract_nested:
  assumes pre: "\<not> py_in BEGIN_TABULAR pre"
    and opt: "opt = [] \<or> (\<exists>a. opt = ''['' @ a @ '']'' \<and> CHR '']'' \<notin> set a)"
    and spec: "CHR ''}'' \<notin> set spec"
    and h: "token_free (opt @ ''{'' @ spec @ ''}'' @ m1)"
    and m2: "token_free m2"
    and m3: "token_free m3"
  shows "extract_outer_tabular
           (pre @ BEGIN_TABULAR @ opt @ ''{'' @ spec @ ''}'' @ m1 @ BEGIN_TABULAR @ m2
              @ END_TABULAR @ m3 @ END_TABULAR @ post)
         = Some \<lparr>column_spec = spec,
                  body = m1 @ BEGIN_TABULAR @ m2 @ END_TABULAR @ m3\<rparr>"
proof -
  define header where "header = BEGIN_TABULAR @ opt @ ''{'' @ spec @ ''}''"
  define inner where "inner = m1 @ BEGIN_TABULAR @ m2 @ END_TABULAR @ m3"
  define closing where "closing = END_TABULAR @ post"
  define doc where "doc = pre @ BEGIN_TABULAR @ opt @ ''{'' @ spec @ ''}'' @ m1 @ BEGIN_TABULAR
                              @ m2 @ END_TABULAR @ m3 @ END_TABULAR @ post"
  have doc: "doc = pre @ header @ inner @ closing"
    by (simp add: doc_def header_def inner_def closing_def)
  have s: "TABULAR_BEGIN_RE_search 0 doc = Some (length pre, length pre + length header, spec)"
    unfolding doc_def header_def
    using search_at_header [OF pre opt spec,
        of "m1 @ BEGIN_TABULAR @ m2 @ END_TABULAR @ m3 @ END_TABULAR @ post"]
    by simp
  have d: "drop (length pre) doc
           = BEGIN_TABULAR @ (opt @ ''{'' @ spec @ ''}'' @ m1) @ BEGIN_TABULAR @ m2
               @ END_TABULAR @ m3 @ END_TABULAR @ post"
    by (simp add: doc_def)
  define p3 where "p3 = length pre + length BEGIN_TABULAR + length (opt @ ''{'' @ spec @ ''}'' @ m1)
                          + length BEGIN_TABULAR + length m2 + length END_TABULAR + length m3"
  have "\<exists>p1 p2 ts. TABULAR_TOKEN_RE_finditer (length pre) (drop (length pre) doc)
          = (''begin'', length pre) # (''begin'', p1) # (''end'', p2) # (''end'', p3) # ts"
    unfolding d p3_def
    by (subst tokens_of_nested [OF h m2 m3]) blast
  then obtain p1 p2 ts where
    "TABULAR_TOKEN_RE_finditer (length pre) (drop (length pre) doc)
       = (''begin'', length pre) # (''begin'', p1) # (''end'', p2) # (''end'', p3) # ts"
    by blast
  then have e: "scan_tokens 0 (TABULAR_TOKEN_RE_finditer (length pre) (drop (length pre) doc))
                = Some p3"
    by (simp only: scan_tokens_nested)
  have p3: "p3 = length (pre @ header) + length inner"
    by (simp add: p3_def header_def inner_def)
  have "slice ((pre @ header) @ inner @ closing) (length (pre @ header)) (length (pre @ header) + length inner) = inner"
    by (rule slice_middle)
  then have b: "slice doc (length pre + length header) p3 = inner"
    by (simp add: doc p3)
  have "extract_outer_tabular doc = Some \<lparr>column_spec = spec, body = inner\<rparr>"
    by (simp add: extract_outer_tabular_def s e b)
  then show ?thesis
    by (simp only: doc_def inner_def)
qed

lemma scan_tokens_never_closed:
  "\<forall>k\<in>{1 .. length ts}. d + depth_after (take k ts) \<noteq> 0 \<Longrightarrow> scan_tokens d ts = None"
proof (induction ts arbitrary: d)
  case Nil
  then show ?case by simp
next
  case (Cons t ts)
  obtain g start where t: "t = (g, start)" by (cases t)
  have step: "\<forall>k\<in>{1 .. length ts}. d + depth_after [t] + depth_after (take k ts) \<noteq> 0"
  proof
    fix k assume "k \<in> {1 .. length ts}"
    then have "Suc k \<in> {1 .. length (t # ts)}" by simp
    with Cons.prems have "d + depth_after (take (Suc k) (t # ts)) \<noteq> 0" by blast
    then show "d + depth_after [t] + depth_after (take k ts) \<noteq> 0"
      by (simp add: t)
  qed
  have one: "d + depth_after [t] \<noteq> 0"
  proof -
    have "1 \<in> {1 .. length (t # ts)}" by simp
    with Cons.prems have "d + depth_after (take 1 (t # ts)) \<noteq> 0" by blast
    then show ?thesis by simp
  qed
  show ?case
  proof (cases "g = ''begin''")
    case True
    then have "scan_tokens d (t # ts) = scan_tokens (d + 1) ts"
      by (simp add: t)
    also have "\<dots> = None"
      using step True by (intro Cons.IH) (simp add: t)
    finally show ?thesis .
  next
    case False
    with one have "d - 1 \<noteq> 0" by (simp add: t)
    with False have "scan_tokens d (t # ts) = scan_tokens (d - 1) ts"
      by (simp add: t)
    also have "\<dots> = None"
      using step False by (intro Cons.IH) (simp add: t)
    finally show ?thesis .
  qed
qed

lemma extract_never_closed:
  assumes "\<forall>k\<in>{1 .. length (tabular_tokens s)}. depth_after (take k (tabular_tokens s)) \<noteq> 0"
  shows "extract_outer_tabular s = None"
proof (cases "TABULAR_BEGIN_RE_search 0 s")
  case None
  then show ?thesis by (simp add: extract_outer_tabular_def)
next
  case (Some m)
  obtain b e g where m: "m = (b, e, g)" by (cases m)
  have t: "tabular_tokens s = TABULAR_TOKEN_RE_finditer b (drop b s)"
    by (simp add: tabular_tokens_def Some m)
  have "scan_tokens 0 (tabular_tokens s) = None"
    using assms by (intro scan_tokens_never_closed) simp
  then show ?thesis
    by (simp add: extract_outer_tabular_def Some m t)
qed

section \<open>Column counting\<close>

text \<open>
  C4. A column letter with a width argument in braces, such as \<open>p{2cm}\<close>, should count
  as one column. \<open>count_columns_from_spec\<close> removes only the at-sign directives, so the
  letters inside the width argument are counted as well: \<open>p{2cm}\<close> gives 3 (for \<open>p\<close>,
  \<open>c\<close> and \<open>m\<close>) instead of 1, and so does \<open>p{2cm\<close>, the specification that the
  extraction recovers from \<open>\begin{tabular}{p{2cm}l}\<close>. The audit of a two-column table
  with that header and the row \<open>a & b\<close> then expects 3 columns and reports the row.
\<close>

theorem count_columns_from_spec_width_argument:
  "count_columns_from_spec ''p{2cm}'' = Some 3 \<and> count_columns_from_spec ''p{2cm'' = Some 3
   \<and> expected_columns (audit_latex_table
         (BEGIN_TABULAR @ ''{p{2cm}l} a & b '' @ [bsl, bsl] @ END_TABULAR)) = Some 3
   \<and> column_mismatch_rows (audit_latex_table
         (BEGIN_TABULAR @ ''{p{2cm}l} a & b '' @ [bsl, bsl] @ END_TABULAR)) = [1]"
  by code_simp


section \<open>Row scanning\<close>




text \<open>
  C9. The list returned by \<open>find_column_mismatches\<close> is strictly increasing and made
  of positive integers, for every block and every expected column count; no row index
  appears twice.
\<close>

theorem find_column_mismatches_strictly_increasing:
  "sorted_wrt (<) (find_column_mismatches tabular_block expected_cols)
   \<and> (\<forall>i\<in>set (find_column_mismatches tabular_block expected_cols). 0 < i)
   \<and> distinct (find_column_mismatches tabular_block expected_cols)"
proof -
  have "sorted_wrt (<) (find_column_mismatches tabular_block expected_cols)"
    using find_column_mismatches_inv by blast
  moreover from this have "distinct (find_column_mismatches tabular_block expected_cols)"
    by (simp add: strict_sorted_iff)
  ultimately show ?thesis
    using find_column_mismatches_inv by blast
qed

theorem find_column_mismatches_strictly_increasing_witness:
  "find_column_mismatches
     \<lparr>column_spec = ''lll'',
      body = ''a & b & c '' @ [bsl, bsl] @ '' x & y '' @ [bsl, bsl] @ '' z''\<rparr> 3 = [2, 3]
   \<and> sorted_wrt (<) (find_column_mismatches
     \<lparr>column_spec = ''lll'',
      body = ''a & b & c '' @ [bsl, bsl] @ '' x & y '' @ [bsl, bsl] @ '' z''\<rparr> 3)
   \<and> list_all (\<lambda>i. 0 < i) (find_column_mismatches
     \<lparr>column_spec = ''lll'',
      body = ''a & b & c '' @ [bsl, bsl] @ '' x & y '' @ [bsl, bsl] @ '' z''\<rparr> 3)"
proof -
  have v: "find_column_mismatches
     \<lparr>column_spec = ''lll'',
      body = ''a & b & c '' @ [bsl, bsl] @ '' x & y '' @ [bsl, bsl] @ '' z''\<rparr> 3 = [2, 3]"
    by code_simp
  show ?thesis
    using find_column_mismatches_strictly_increasing
      [of "\<lparr>column_spec = ''lll'',
            body = ''a & b & c '' @ [bsl, bsl] @ '' x & y '' @ [bsl, bsl] @ '' z''\<rparr>" 3] v
    by (simp add: list_all_iff)
qed


section \<open>Invariants of the report\<close>

text \<open>
  C3. Every report has as many suggestions as issues: each check that adds an issue adds
  one suggestion with it.
\<close>

theorem issues_suggestions_same_length:
  "length (issues (audit_latex_table s)) = length (suggestions (audit_latex_table s))"
  by (simp add: audit_normal_form)

text \<open>
  C7. The report names no mismatched row when the scaffold flag is set, and none when it
  has no expected column count; this holds also when the fallback sets the expected
  column count while the scaffold flag is set.
\<close>

theorem mismatch_rows_need_region_and_count:
  "(needs_tabular_scaffold (audit_latex_table s) \<longrightarrow> column_mismatch_rows (audit_latex_table s) = [])
   \<and> (expected_columns (audit_latex_table s) = None
        \<longrightarrow> column_mismatch_rows (audit_latex_table s) = [])"
proof (intro conjI impI)
  assume "needs_tabular_scaffold (audit_latex_table s)"
  then have "extract_outer_tabular s = None"
    by (simp add: audit_normal_form)
  then show "column_mismatch_rows (audit_latex_table s) = []"
    by (simp add: audit_normal_form extracted_mismatches_region)
next
  assume "expected_columns (audit_latex_table s) = None"
  then have "extracted_columns s = None"
    by (rule expected_columns_None)
  then show "column_mismatch_rows (audit_latex_table s) = []"
    by (simp add: audit_normal_form extracted_mismatches_columns)
qed

theorem mismatch_rows_need_region_and_count_witness:
  "needs_tabular_scaffold (audit_latex_table ''a & b'')
   \<and> expected_columns (audit_latex_table ''a & b'') = Some 2
   \<and> column_mismatch_rows (audit_latex_table ''a & b'') = []
   \<and> expected_columns (audit_latex_table ''ab'') = None
   \<and> column_mismatch_rows (audit_latex_table ''ab'') = []"
proof -
  have a: "needs_tabular_scaffold (audit_latex_table ''a & b'')" by code_simp
  have b: "expected_columns (audit_latex_table ''a & b'') = Some 2" by code_simp
  have c: "expected_columns (audit_latex_table ''ab'') = None" by code_simp
  from a have d: "column_mismatch_rows (audit_latex_table ''a & b'') = []"
    using mismatch_rows_need_region_and_count [of "''a & b''"] by blast
  from c have e: "column_mismatch_rows (audit_latex_table ''ab'') = []"
    using mismatch_rows_need_region_and_count [of "''ab''"] by blast
  from a b c d e show ?thesis by blast
qed


text \<open>
  C10. The placeholder headers are empty when the bold marker is present. Otherwise they
  are \<open>Column 1\<close> to \<open>Column k\<close>, with \<open>k\<close> the maximum of 1 and of the first of the
  expected column count, the fallback count and 3 that is neither absent nor zero; so
  they are non-empty exactly when the bold marker is absent.
\<close>

theorem placeholder_headers_spec:
  "placeholder_headers (audit_latex_table s) =
     (if py_in (bsl # ''textbf'') s then []
      else map (\<lambda>n. ''Column '' @ str_int n)
             [1 .. max 1 (case py_or (py_or (expected_columns (audit_latex_table s))
                                       (count_columns_in_line (first_line_with_amp s)))
                                (Some 3)
                          of Some k \<Rightarrow> k | None \<Rightarrow> 3)])
   \<and> (placeholder_headers (audit_latex_table s) \<noteq> [] \<longleftrightarrow> \<not> py_in (bsl # ''textbf'') s)"
proof -
  have e: "expected_columns (audit_latex_table s) =
     (if truthy (extracted_columns s) then extracted_columns s
      else (case count_columns_in_line (first_line_with_amp s) of
              None \<Rightarrow> extracted_columns s
            | Some k \<Rightarrow> Some k))"
    by (simp add: audit_normal_form)
  have p: "placeholder_headers (audit_latex_table s) =
     (if \<not> py_in (bsl # ''textbf'') s
      then make_placeholder_headers
             (if truthy (extracted_columns s) then the (extracted_columns s)
              else (case count_columns_in_line (first_line_with_amp s) of
                      None \<Rightarrow> 3
                    | Some k \<Rightarrow> if k = 0 then 3 else k))
      else [])"
    by (simp add: audit_normal_form)
  have first: "placeholder_headers (audit_latex_table s) =
     (if py_in (bsl # ''textbf'') s then []
      else map (\<lambda>n. ''Column '' @ str_int n)
             [1 .. max 1 (case py_or (py_or (expected_columns (audit_latex_table s))
                                       (count_columns_in_line (first_line_with_amp s)))
                                (Some 3)
                          of Some k \<Rightarrow> k | None \<Rightarrow> 3)])"
    unfolding e header_count p make_placeholder_headers_upto by simp
  have "make_placeholder_headers k \<noteq> []" for k
  proof -
    have "length (make_placeholder_headers k) = nat (max 1 k)"
      by (rule make_placeholder_headers_length)
    then show ?thesis by auto
  qed
  then have second: "placeholder_headers (audit_latex_table s) \<noteq> [] \<longleftrightarrow> \<not> py_in (bsl # ''textbf'') s"
    unfolding p by simp
  from first second show ?thesis by blast
qed

theorem placeholder_headers_spec_witness:
  "placeholder_headers (audit_latex_table ''a & b'') = [''Column 1'', ''Column 2'']
   \<and> placeholder_headers (audit_latex_table (bsl # ''textbf{a} & b'')) = []"
proof -
  have a: "\<not> py_in (bsl # ''textbf'') ''a & b''" by code_simp
  have b: "py_in (bsl # ''textbf'') (bsl # ''textbf{a} & b'')" by code_simp
  have c: "map (\<lambda>n. ''Column '' @ str_int n)
             [1 .. max 1 (case py_or (py_or (expected_columns (audit_latex_table ''a & b''))
                                       (count_columns_in_line (first_line_with_amp ''a & b'')))
                                (Some 3)
                          of Some k \<Rightarrow> k | None \<Rightarrow> 3)] = [''Column 1'', ''Column 2'']"
    by code_simp
  show ?thesis
    using placeholder_headers_spec [of "''a & b''"]
      placeholder_headers_spec [of "bsl # ''textbf{a} & b''"] a b c
    by simp
qed


section \<open>The audit of a text without markers\<close>

text \<open>
  C1, as the specification states it: a text with no table marker, caption, label,
  centering, rule keyword or bold marker gets a report with 5 issues and 5 suggestions
  and 3 placeholder headers. On the plain text \<open>Alice 30\<close> the report has 6 issues and
  6 suggestions: the missing bold marker is itself a finding.
\<close>

theorem audit_without_markers_counterexample:
  "\<not> (\<not> py_in BEGIN_TABULAR ''Alice 30'' \<and> \<not> py_in END_TABULAR ''Alice 30''
        \<and> \<not> py_in (bsl # ''caption'') ''Alice 30'' \<and> \<not> py_in (bsl # ''label'') ''Alice 30''
        \<and> \<not> py_in (bsl # ''centering'') ''Alice 30'' \<and> \<not> py_in (bsl # ''toprule'') ''Alice 30''
        \<and> \<not> py_in (bsl # ''midrule'') ''Alice 30'' \<and> \<not> py_in (bsl # ''bottomrule'') ''Alice 30''
        \<and> \<not> py_in (bsl # ''textbf'') ''Alice 30''
      \<longrightarrow> \<not> has_caption (audit_latex_table ''Alice 30'')
          \<and> \<not> has_label (audit_latex_table ''Alice 30'')
          \<and> \<not> has_centering (audit_latex_table ''Alice 30'')
          \<and> \<not> uses_full_booktabs (audit_latex_table ''Alice 30'')
          \<and> needs_tabular_scaffold (audit_latex_table ''Alice 30'')
          \<and> length (placeholder_headers (audit_latex_table ''Alice 30'')) = 3
          \<and> length (issues (audit_latex_table ''Alice 30'')) = 5
          \<and> length (suggestions (audit_latex_table ''Alice 30'')) = 5)"
  by code_simp

text \<open>
  C1, amended: such a text gets all four presence flags false, the scaffold flag set,
  exactly 6 issues and 6 suggestions (four presence checks, the missing region, the
  missing header), and as many placeholder headers as the fallback counts columns, 3
  when the fallback finds no count; in particular 3 when the text has no cell separator.
\<close>

theorem audit_without_markers:
  assumes "\<not> py_in BEGIN_TABULAR s"
    and "\<not> py_in (bsl # ''caption'') s"
    and "\<not> py_in (bsl # ''label'') s"
    and "\<not> py_in (bsl # ''centering'') s"
    and "\<not> py_in (bsl # ''toprule'') s"
    and "\<not> py_in (bsl # ''midrule'') s"
    and "\<not> py_in (bsl # ''bottomrule'') s"
    and "\<not> py_in (bsl # ''textbf'') s"
  shows "\<not> has_caption (audit_latex_table s) \<and> \<not> has_label (audit_latex_table s)
    \<and> \<not> has_centering (audit_latex_table s) \<and> \<not> uses_full_booktabs (audit_latex_table s)
    \<and> needs_tabular_scaffold (audit_latex_table s)
    \<and> length (issues (audit_latex_table s)) = 6
    \<and> length (suggestions (audit_latex_table s)) = 6
    \<and> length (placeholder_headers (audit_latex_table s)) =
        (case count_columns_in_line (first_line_with_amp s) of None \<Rightarrow> 3 | Some k \<Rightarrow> nat k)
    \<and> (CHR ''&'' \<notin> set s \<longrightarrow> length (placeholder_headers (audit_latex_table s)) = 3)"
proof -
  have ex: "extract_outer_tabular s = None"
    using assms(1) by (rule extract_without_begin)
  then have ec: "extracted_columns s = None"
    by (simp add: extracted_columns_def)
  have flags: "\<not> has_caption (audit_latex_table s)" "\<not> has_label (audit_latex_table s)"
    "\<not> has_centering (audit_latex_table s)" "\<not> uses_full_booktabs (audit_latex_table s)"
    using assms by (simp_all add: audit_normal_form)
  have scaffold: "needs_tabular_scaffold (audit_latex_table s)"
    using ex by (simp add: audit_normal_form)
  have n: "length (issues (audit_latex_table s)) = 6" "length (suggestions (audit_latex_table s)) = 6"
    using assms ex by (simp_all add: audit_normal_form)
  have ph: "placeholder_headers (audit_latex_table s) =
      make_placeholder_headers
        (case count_columns_in_line (first_line_with_amp s) of
           None \<Rightarrow> 3 | Some k \<Rightarrow> if k = 0 then 3 else k)"
    using assms(8) ec by (simp add: audit_normal_form truthy_def)
  have len: "length (placeholder_headers (audit_latex_table s)) =
        (case count_columns_in_line (first_line_with_amp s) of None \<Rightarrow> 3 | Some k \<Rightarrow> nat k)"
  proof (cases "count_columns_in_line (first_line_with_amp s)")
    case None
    then show ?thesis by (simp add: ph make_placeholder_headers_length)
  next
    case (Some k)
    then have "2 \<le> k" by (rule count_columns_in_line_ge2)
    with Some show ?thesis by (simp add: ph make_placeholder_headers_length)
  qed
  have "length (placeholder_headers (audit_latex_table s)) = 3" if "CHR ''&'' \<notin> set s"
  proof -
    from that have "first_line_with_amp s = None" by (rule no_amp_no_line)
    then show ?thesis by (simp add: len count_columns_in_line_def)
  qed
  with flags scaffold n len show ?thesis by blast
qed

theorem audit_without_markers_witness:
  "length (issues (audit_latex_table ''Alice 30'')) = 6
   \<and> length (suggestions (audit_latex_table ''Alice 30'')) = 6
   \<and> needs_tabular_scaffold (audit_latex_table ''Alice 30'')
   \<and> length (placeholder_headers (audit_latex_table ''Alice 30'')) = 3
   \<and> length (issues (audit_latex_table ''a & b'')) = 6
   \<and> length (placeholder_headers (audit_latex_table ''a & b'')) = 2"
proof -
  have h1: "\<not> py_in BEGIN_TABULAR ''Alice 30''" "\<not> py_in (bsl # ''caption'') ''Alice 30''"
    "\<not> py_in (bsl # ''label'') ''Alice 30''" "\<not> py_in (bsl # ''centering'') ''Alice 30''"
    "\<not> py_in (bsl # ''toprule'') ''Alice 30''" "\<not> py_in (bsl # ''midrule'') ''Alice 30''"
    "\<not> py_in (bsl # ''bottomrule'') ''Alice 30''" "\<not> py_in (bsl # ''textbf'') ''Alice 30''"
    by code_simp+
  have h2: "\<not> py_in BEGIN_TABULAR ''a & b''" "\<not> py_in (bsl # ''caption'') ''a & b''"
    "\<not> py_in (bsl # ''label'') ''a & b''" "\<not> py_in (bsl # ''centering'') ''a & b''"
    "\<not> py_in (bsl # ''toprule'') ''a & b''" "\<not> py_in (bsl # ''midrule'') ''a & b''"
    "\<not> py_in (bsl # ''bottomrule'') ''a & b''" "\<not> py_in (bsl # ''textbf'') ''a & b''"
    by code_simp+
  have amp: "CHR ''&'' \<notin> set ''Alice 30''" by simp
  have c: "count_columns_in_line (first_line_with_amp ''a & b'') = Some 2" by code_simp
  show ?thesis
    using audit_without_markers [OF h1] audit_without_markers [OF h2] amp c by simp
qed


section \<open>The column-count fallback\<close>

text \<open>
  C5, as the specification states it: when extraction resolved no column count, the
  first line with a cell separator that is not a comment gives the expected column
  count, its unescaped separators plus one, also when all its separators are escaped.
  On the text \<open>a \& b\<close> that would be 1, and the report has no expected column count.
\<close>

theorem fallback_expected_columns_counterexample:
  "\<not> (extracted_columns (''a '' @ bsl # ''& b'') = None
        \<and> first_line_with_amp (''a '' @ bsl # ''& b'') = Some (''a '' @ bsl # ''& b'')
      \<longrightarrow> expected_columns (audit_latex_table (''a '' @ bsl # ''& b''))
            = Some (int (unescaped_separators (''a '' @ bsl # ''& b'')) + 1))"
  by code_simp

text \<open>
  C5, amended: when extraction resolved no column count, the report's expected column
  count comes from the first line that contains the cell separator and is not a
  comment: it is the number of separators of that line, minus the escaped ones, plus
  one, when at least one separator of the line is not escaped; it is absent when there
  is no such line or when all the separators of that line are escaped (later lines are
  not looked at).
\<close>

theorem fallback_expected_columns:
  assumes "extracted_columns s = None"
  shows "expected_columns (audit_latex_table s) =
     (case first_line_with_amp s of
        None \<Rightarrow> None
      | Some line \<Rightarrow>
          if unescaped_separators line = 0 then None
          else Some (int (unescaped_separators line) + 1))"
proof -
  have e: "expected_columns (audit_latex_table s) = count_columns_in_line (first_line_with_amp s)"
    using assms by (simp add: audit_normal_form truthy_def split: option.split)
  show ?thesis
  proof (cases "first_line_with_amp s")
    case None
    then show ?thesis by (simp add: e count_columns_in_line_def)
  next
    case (Some l)
    then have "CHR ''&'' \<in> set l"
      using first_line_with_amp_has_amp by blast
    from count_columns_in_line_unescaped [OF this] Some show ?thesis
      by (simp add: e)
  qed
qed

theorem fallback_expected_columns_witness:
  "expected_columns (audit_latex_table ''x & y & z'') = Some 3
   \<and> expected_columns (audit_latex_table (''a '' @ bsl # ''& b'')) = None"
proof -
  have h1: "extracted_columns ''x & y & z'' = None" by code_simp
  have h2: "extracted_columns (''a '' @ bsl # ''& b'') = None" by code_simp
  have v1: "(case first_line_with_amp ''x & y & z'' of
        None \<Rightarrow> None
      | Some line \<Rightarrow>
          if unescaped_separators line = 0 then None
          else Some (int (unescaped_separators line) + 1)) = Some 3" by code_simp
  have v2: "(case first_line_with_amp (''a '' @ bsl # ''& b'') of
        None \<Rightarrow> None
      | Some line \<Rightarrow>
          if unescaped_separators line = 0 then None
          else Some (int (unescaped_separators line) + 1)) = None" by code_simp
  show ?thesis
    using fallback_expected_columns [OF h1] fallback_expected_columns [OF h2] v1 v2 by simp
qed


section \<open>Totality\<close>

text \<open>
  C2. Every function above is defined by terminating recursion and has no error branch:
  the operations of the source (membership, \<open>startswith\<close>, \<open>replace\<close>, \<open>count\<close>,
  \<open>split\<close>, \<open>strip\<close>, \<open>splitlines\<close>, slicing, the regular-expression searches,
  \<open>max\<close>, \<open>range\<close>, \<open>len\<close>) raise on no string. So the audit returns a report for
  every text, and the report is well formed; for the empty text all four presence flags
  are false and no mismatched row is named.
\<close>

theorem audit_total_well_formed:
  "well_formed (audit_latex_table s)
   \<and> \<not> has_caption (audit_latex_table []) \<and> \<not> has_label (audit_latex_table [])
   \<and> \<not> has_centering (audit_latex_table []) \<and> \<not> uses_full_booktabs (audit_latex_table [])
   \<and> column_mismatch_rows (audit_latex_table []) = []"
proof -
  have "\<not> has_caption (audit_latex_table []) \<and> \<not> has_label (audit_latex_table [])
   \<and> \<not> has_centering (audit_latex_table []) \<and> \<not> uses_full_booktabs (audit_latex_table [])
   \<and> column_mismatch_rows (audit_latex_table []) = []"
    by code_simp
  with well_formed_audit [of s] show ?thesis by blast
qed

theorem audit_total_well_formed_witness:
  "well_formed (audit_latex_table (BEGIN_TABULAR @ ''{lll} a & b '' @ [bsl, bsl] @ END_TABULAR))
   \<and> column_mismatch_rows
        (audit_latex_table (BEGIN_TABULAR @ ''{lll} a & b '' @ [bsl, bsl] @ END_TABULAR)) = [1]
   \<and> well_formed (audit_latex_table ''   '')"
proof -
  have v: "column_mismatch_rows
        (audit_latex_table (BEGIN_TABULAR @ ''{lll} a & b '' @ [bsl, bsl] @ END_TABULAR)) = [1]"
    by code_simp
  show ?thesis
    using audit_total_well_formed [of "BEGIN_TABULAR @ ''{lll} a & b '' @ [bsl, bsl] @ END_TABULAR"]
      audit_total_well_formed [of "''   ''"] v
    by simp
qed



section \<open>Extraction of a nested region\<close>

text \<open>
  C6. Take a text made of a prefix without the begin marker, a begin marker with an
  optional bracketed argument and a column specification, and a region with exactly one
  nested pair of begin and end markers before the closing end marker. The extraction
  returns the column specification and, as body, the text strictly between the end of
  the outer begin marker (with its arguments) and the start of the closing end marker,
  the nested pair included. And when the depth of the scan is never 0 after a token,
  the extraction returns nothing.
\<close>

theorem extract_outer_tabular_nesting:
  "(\<not> py_in BEGIN_TABULAR pre
    \<and> (opt = [] \<or> (\<exists>a. opt = ''['' @ a @ '']'' \<and> CHR '']'' \<notin> set a))
    \<and> CHR ''}'' \<notin> set spec
    \<and> token_free (opt @ ''{'' @ spec @ ''}'' @ m1) \<and> token_free m2 \<and> token_free m3
    \<longrightarrow> extract_outer_tabular
          (pre @ BEGIN_TABULAR @ opt @ ''{'' @ spec @ ''}'' @ m1 @ BEGIN_TABULAR @ m2
             @ END_TABULAR @ m3 @ END_TABULAR @ post)
        = Some \<lparr>column_spec = spec, body = m1 @ BEGIN_TABULAR @ m2 @ END_TABULAR @ m3\<rparr>)
   \<and> ((\<forall>k\<in>{1 .. length (tabular_tokens s)}. depth_after (take k (tabular_tokens s)) \<noteq> 0)
        \<longrightarrow> extract_outer_tabular s = None)"
  using extract_nested extract_never_closed by blast

theorem extract_outer_tabular_nesting_witness:
  "extract_outer_tabular
     (''x '' @ BEGIN_TABULAR @ ''[t]'' @ ''{'' @ ''lc'' @ ''}'' @ '' A '' @ BEGIN_TABULAR @ ''{c} x ''
        @ END_TABULAR @ '' B '' @ END_TABULAR @ '' y'')
   = Some \<lparr>column_spec = ''lc'',
            body = '' A '' @ BEGIN_TABULAR @ ''{c} x '' @ END_TABULAR @ '' B ''\<rparr>
   \<and> extract_outer_tabular (BEGIN_TABULAR @ ''{c} a '' @ BEGIN_TABULAR @ ''{c} b '' @ END_TABULAR)
     = None"
proof -
  have h1: "\<not> py_in BEGIN_TABULAR ''x ''" by code_simp
  have h2: "''[t]'' = [] \<or> (\<exists>a. ''[t]'' = ''['' @ a @ '']'' \<and> CHR '']'' \<notin> set a)"
    by (rule disjI2, rule exI [of _ "''t''"]) simp
  have h3: "CHR ''}'' \<notin> set ''lc''" by simp
  have h4: "token_free (''[t]'' @ ''{'' @ ''lc'' @ ''}'' @ '' A '')" by code_simp
  have h5: "token_free ''{c} x ''" by code_simp
  have h6: "token_free '' B ''" by code_simp
  have ht: "tabular_tokens (BEGIN_TABULAR @ ''{c} a '' @ BEGIN_TABULAR @ ''{c} b '' @ END_TABULAR)
            = [(''begin'', 0), (''begin'', 21), (''end'', 42)]"
    by code_simp
  have h7: "\<forall>k\<in>{1 .. length (tabular_tokens
                (BEGIN_TABULAR @ ''{c} a '' @ BEGIN_TABULAR @ ''{c} b '' @ END_TABULAR))}.
              depth_after (take k (tabular_tokens
                (BEGIN_TABULAR @ ''{c} a '' @ BEGIN_TABULAR @ ''{c} b '' @ END_TABULAR))) \<noteq> 0"
    unfolding ht
  proof
    fix k :: nat
    assume "k \<in> {1 .. length [(''begin'', 0::nat), (''begin'', 21), (''end'', 42)]}"
    then have "k = 1 \<or> k = 2 \<or> k = 3" by auto
    then show "depth_after (take k [(''begin'', 0), (''begin'', 21), (''end'', 42)]) \<noteq> 0"
      by auto
  qed
  have first: "extract_outer_tabular
     (''x '' @ BEGIN_TABULAR @ ''[t]'' @ ''{'' @ ''lc'' @ ''}'' @ '' A '' @ BEGIN_TABULAR @ ''{c} x ''
        @ END_TABULAR @ '' B '' @ END_TABULAR @ '' y'')
   = Some \<lparr>column_spec = ''lc'',
            body = '' A '' @ BEGIN_TABULAR @ ''{c} x '' @ END_TABULAR @ '' B ''\<rparr>"
    by (rule extract_outer_tabular_nesting
          [of "''x ''" "''[t]''" "''lc''" "'' A ''" "''{c} x ''" "'' B ''" "'' y''",
           THEN conjunct1, THEN mp])
       (intro conjI h1 h2 h3 h4 h5 h6)
  have second: "extract_outer_tabular
      (BEGIN_TABULAR @ ''{c} a '' @ BEGIN_TABULAR @ ''{c} b '' @ END_TABULAR) = None"
    by (rule extract_outer_tabular_nesting
          [of "[]" "[]" "[]" "[]" "[]" "[]" "[]"
              "BEGIN_TABULAR @ ''{c} a '' @ BEGIN_TABULAR @ ''{c} b '' @ END_TABULAR",
           THEN conjunct2, THEN mp])
       (rule h7)
  from first second show ?thesis by (rule conjI)
qed

end
